theory Spec2Isabelle
  imports Complex_Main
begin

section \<open>Data model\<close>

text \<open>
  The prediction tensor \<open>preds\<close> of \<open>utilities/nms.py\<close> has one row per candidate box.
  The source addresses the columns of a row through the index constants \<open>YOLO_TX\<close>,
  \<open>YOLO_TY\<close>, \<open>YOLO_TW\<close>, \<open>YOLO_TH\<close> and \<open>YOLO_CLASS_START\<close>; a row is modelled as a
  record with one field per named column, the slice \<open>preds[..., YOLO_CLASS_START:]\<close> being
  the list of class scores. The corner-form tensor \<open>bboxes\<close> is addressed through
  \<open>BBOX_X1\<close>, \<open>BBOX_Y1\<close>, \<open>BBOX_X2\<close>, \<open>BBOX_Y2\<close> and is modelled likewise.

  Tensor entries are floating-point numbers in the source. They are modelled as real
  numbers: arithmetic is exact, and the only non-number the model keeps is the result of
  dividing by a zero union area, which is \<open>None\<close>.
\<close>

text \<open>Modelled from the spec: \<open>utilities/constants.py\<close> is missing. The row layout
  \<open>[tx, ty, tw, th, objectness, class scores ...]\<close> is the one of section 6 of the
  specification (shape \<open>[N_boxes, 4 + 1 + C_classes]\<close>).\<close>
record detection =
  YOLO_TX :: real
  YOLO_TY :: real
  YOLO_TW :: real
  YOLO_TH :: real
  YOLO_OBJ :: real
  YOLO_CLASSES :: "real list"

text \<open>Modelled from the spec: \<open>utilities/constants.py\<close> is missing. Corner form is
  \<open>(x1, y1, x2, y2)\<close>, as in section 3 of the specification.\<close>
record bbox =
  BBOX_X1 :: real
  BBOX_Y1 :: real
  BBOX_X2 :: real
  BBOX_Y2 :: real

text \<open>Modelled from the spec: the class of \<open>yolo_layer\<close> is missing. The source reads only
  its attribute \<open>nms_kind\<close>; the per-layer overlap threshold is the one of the suppression
  configuration in section 3 of the specification.\<close>
record yolo_layer =
  nms_kind :: string
  nms_threshold :: real

section \<open>Tensor operations used by the source\<close>

text \<open>\<open>torch.clamp(x, min=lo)\<close>.\<close>
definition clamp_min :: "real \<Rightarrow> real \<Rightarrow> real" where
  "clamp_min x lo = max x lo"

text \<open>\<open>x.expand_as(t)\<close>: \<open>x\<close> repeated along a new leading dimension as long as \<open>t\<close>.\<close>
definition expand_as :: "'a \<Rightarrow> 'b list \<Rightarrow> 'a list" where
  "expand_as x t = replicate (length t) x"

text \<open>\<open>t[mask]\<close> with a boolean mask over the leading dimension: the selected rows, in order.\<close>
fun mask_index :: "'a list \<Rightarrow> bool list \<Rightarrow> 'a list" where
  "mask_index (x # xs) (m # ms) = (if m then x # mask_index xs ms else mask_index xs ms)"
| "mask_index _ _ = []"

text \<open>\<open>t[mask] = vals\<close> with a boolean mask over the leading dimension: the selected rows
  are overwritten, in order, by the rows of \<open>vals\<close>.\<close>
fun mask_assign :: "'a list \<Rightarrow> bool list \<Rightarrow> 'a list \<Rightarrow> 'a list" where
  "mask_assign (z # zs) (m # ms) vs =
     (if m then (case vs of [] \<Rightarrow> z # mask_assign zs ms [] | v # vs' \<Rightarrow> v # mask_assign zs ms vs')
      else z # mask_assign zs ms vs)"
| "mask_assign zs [] vs = zs"
| "mask_assign [] ms vs = []"

text \<open>\<open>row[mask] = 0\<close> on one row, with an elementwise boolean mask.\<close>
definition fill_row0 :: "real list \<Rightarrow> bool list \<Rightarrow> real list" where
  "fill_row0 row zero_mask = map2 (\<lambda>x m. if m then 0 else x) row zero_mask"

text \<open>\<open>t[mask] = 0\<close> on a two-dimensional tensor, with an elementwise boolean mask.\<close>
definition fill0 :: "real list list \<Rightarrow> bool list list \<Rightarrow> real list list" where
  "fill0 t zero_mask = map2 fill_row0 t zero_mask"

text \<open>\<open>t[mask] = 0\<close> where \<open>t\<close> is \<open>row.expand_as(mask)\<close>: every row of \<open>t\<close> is the same
  storage as \<open>row\<close>, so each row of the mask writes through to \<open>row\<close>.\<close>
definition expanded_fill0 :: "real list \<Rightarrow> bool list list \<Rightarrow> real list" where
  "expanded_fill0 row zero_mask = fold (\<lambda>m r. fill_row0 r m) zero_mask row"

text \<open>\<open>iou > nms_thresh\<close>: a comparison with an undefined quotient is false.\<close>
definition iou_gt :: "real option \<Rightarrow> real \<Rightarrow> bool" where
  "iou_gt iou nms_thresh = (case iou of None \<Rightarrow> False | Some v \<Rightarrow> v > nms_thresh)"

section \<open>\<open>bbox_iou\<close>\<close>

text \<open>The local \<open>interArea\<close> of \<open>bbox_iou\<close>.\<close>
definition interArea :: "bbox \<Rightarrow> bbox \<Rightarrow> real" where
  "interArea bboxes_a bboxes_b =
     (let xA = max (BBOX_X1 bboxes_a) (BBOX_X1 bboxes_b);
          yA = max (BBOX_Y1 bboxes_a) (BBOX_Y1 bboxes_b);
          xB = min (BBOX_X2 bboxes_a) (BBOX_X2 bboxes_b);
          yB = min (BBOX_Y2 bboxes_a) (BBOX_Y2 bboxes_b)
      in clamp_min (xB - xA) 0 * clamp_min (yB - yA) 0)"

text \<open>The locals \<open>bboxes_aArea\<close> and \<open>bboxes_bArea\<close> of \<open>bbox_iou\<close>.\<close>
definition bboxArea :: "bbox \<Rightarrow> real" where
  "bboxArea b = (BBOX_X2 b - BBOX_X1 b) * (BBOX_Y2 b - BBOX_Y1 b)"

text \<open>The denominator of \<open>bbox_iou\<close>.\<close>
definition unionArea :: "bbox \<Rightarrow> bbox \<Rightarrow> real" where
  "unionArea bboxes_a bboxes_b =
     bboxArea bboxes_a + bboxArea bboxes_b - interArea bboxes_a bboxes_b"

text \<open>\<open>bbox_iou\<close> on one pair of boxes (the source applies it elementwise). The source
  divides unguarded; a zero denominator gives no number.\<close>
definition bbox_iou :: "bbox \<Rightarrow> bbox \<Rightarrow> real option" where
  "bbox_iou bboxes_a bboxes_b =
     (if unionArea bboxes_a bboxes_b = 0 then None
      else Some (interArea bboxes_a bboxes_b / unionArea bboxes_a bboxes_b))"

section \<open>\<open>greedy_nms_inplace\<close>\<close>

text \<open>Lines 44 to 51: the corner form of one row.\<close>
definition to_bbox :: "detection \<Rightarrow> bbox" where
  "to_bbox d =
     (let half_w = YOLO_TW d / 2;
          half_h = YOLO_TH d / 2
      in \<lparr> BBOX_X1 = YOLO_TX d - half_w, BBOX_Y1 = YOLO_TY d - half_h,
           BBOX_X2 = YOLO_TX d + half_w, BBOX_Y2 = YOLO_TY d + half_h \<rparr>)"

text \<open>The body of the loop at index \<open>i\<close>, on the current contents of \<open>class_probs\<close>;
  it returns the contents after the two writes of lines 73 and 74.\<close>
definition nms_iter :: "bbox list \<Rightarrow> real \<Rightarrow> nat \<Rightarrow> real list list \<Rightarrow> real list list" where
  "nms_iter bboxes nms_thresh i class_probs =
     (let bbox = bboxes ! i;
          bboxes_b = drop (i + 1) bboxes;
          bboxes_a = expand_as bbox bboxes_b;
          iou = map2 bbox_iou bboxes_a bboxes_b;
          thresh_mask = map (\<lambda>v. iou_gt v nms_thresh) iou;
          class_b = drop (i + 1) class_probs;
          class_b_thresh = mask_index class_b thresh_mask;
          class_a = expand_as (class_probs ! i) class_b_thresh;
          class_zero_a = map2 (map2 (<)) class_a class_b_thresh;
          class_zero_b = map (map Not) class_zero_a;
          zero_mask_b = mask_assign (map (\<lambda>r. replicate (length r) False) class_b)
                          thresh_mask class_zero_b
      in take i class_probs
           @ [expanded_fill0 (class_probs ! i) class_zero_a]
           @ fill0 class_b zero_mask_b)"

text \<open>The loop \<open>for i, bbox in enumerate(bboxes[:-1])\<close>.\<close>
definition nms_loop :: "bbox list \<Rightarrow> real \<Rightarrow> real list list \<Rightarrow> real list list" where
  "nms_loop bboxes nms_thresh class_probs =
     fold (nms_iter bboxes nms_thresh) [0 ..< length bboxes - 1] class_probs"

text \<open>\<open>greedy_nms_inplace\<close>: the returned buffer is \<open>preds\<close> after the call. The writes go
  through the view \<open>class_probs\<close>, so only that slice of each row is replaced.\<close>
definition greedy_nms_inplace :: "detection list \<Rightarrow> real \<Rightarrow> detection list" where
  "greedy_nms_inplace preds nms_thresh =
     (let class_probs = map YOLO_CLASSES preds;
          bboxes = map to_bbox preds
      in map2 (\<lambda>d p. d\<lparr>YOLO_CLASSES := p\<rparr>) preds (nms_loop bboxes nms_thresh class_probs))"

section \<open>\<open>run_nms_inplace\<close>\<close>

text \<open>The constants \<open>NMS_THRESHOLD\<close> and \<open>GREEDY_NMS\<close> of the missing
  \<open>utilities/constants.py\<close> are parameters. The call at line 20 passes no threshold, so
  \<open>greedy_nms_inplace\<close> runs with its default \<open>nms_thresh=NMS_THRESHOLD\<close>.\<close>
definition run_nms_inplace :: "real \<Rightarrow> string \<Rightarrow> detection list \<Rightarrow> yolo_layer \<Rightarrow> detection list" where
  "run_nms_inplace NMS_THRESHOLD GREEDY_NMS preds layer =
     (if nms_kind layer = GREEDY_NMS then greedy_nms_inplace preds NMS_THRESHOLD
      else preds)"

section \<open>Predicates and inputs used in the statements\<close>

text \<open>A two-dimensional tensor has rows of one length \<open>C\<close>.\<close>
definition rect :: "nat \<Rightarrow> real list list \<Rightarrow> bool" where
  "rect C P = list_all (\<lambda>r. length r = C) P"

text \<open>A buffer is a tensor when all its rows have the same number \<open>C\<close> of class scores.\<close>
definition is_tensor :: "nat \<Rightarrow> detection list \<Rightarrow> bool" where
  "is_tensor C preds = rect C (map YOLO_CLASSES preds)"

text \<open>\<open>Q\<close> has the shape of \<open>P\<close>, and each entry of \<open>Q\<close> is the entry of \<open>P\<close> or 0.\<close>
definition only_zeroed :: "real list list \<Rightarrow> real list list \<Rightarrow> bool" where
  "only_zeroed P Q = list_all2 (list_all2 (\<lambda>x y. y = x \<or> y = 0)) P Q"

text \<open>No entry is negative.\<close>
definition nonneg :: "real list list \<Rightarrow> bool" where
  "nonneg P = list_all (list_all (\<lambda>x. 0 \<le> x)) P"

text \<open>No class score of the buffer is negative.\<close>
definition scores_nonneg :: "detection list \<Rightarrow> bool" where
  "scores_nonneg preds = nonneg (map YOLO_CLASSES preds)"

text \<open>The local \<open>thresh_mask\<close> of the loop body, as a function of the index \<open>i\<close>.\<close>
definition thresh_mask_of :: "bbox list \<Rightarrow> real \<Rightarrow> nat \<Rightarrow> bool list" where
  "thresh_mask_of bboxes nms_thresh i =
     map (\<lambda>b. iou_gt (bbox_iou (bboxes ! i) b) nms_thresh) (drop (i + 1) bboxes)"

text \<open>The row \<open>[tx, ty, tw, th, 1, scores ...]\<close>.\<close>
definition row :: "real \<Rightarrow> real \<Rightarrow> real \<Rightarrow> real \<Rightarrow> real list \<Rightarrow> detection" where
  "row x y w h scores =
     \<lparr> YOLO_TX = x, YOLO_TY = y, YOLO_TW = w, YOLO_TH = h, YOLO_OBJ = 1, YOLO_CLASSES = scores \<rparr>"

text \<open>Scenario B of the specification: two unit boxes a quarter apart (IOU 3/5), two classes.\<close>
definition scenario_B :: "detection list" where
  "scenario_B = [row 0 0 1 1 [9/10, 3/10], row (1/4) 0 1 1 [7/10, 3/10]]"

text \<open>Scenario C of the specification: two unit boxes two thirds apart (IOU 1/5).\<close>
definition scenario_C :: "detection list" where
  "scenario_C = [row 0 0 1 1 [9/10, 3/10], row (2/3) 0 1 1 [7/10, 8/10]]"

text \<open>Scenario D of the specification: three coinciding boxes with decreasing scores.\<close>
definition scenario_D :: "detection list" where
  "scenario_D = [row 0 0 1 1 [9/10], row 0 0 1 1 [6/10], row 0 0 1 1 [3/10]]"

text \<open>Three boxes in a line: box 0 overlaps boxes 1 and 2 (IOU 3/5 each), boxes 1 and 2
  overlap each other less (IOU 1/3).\<close>
definition three_in_line :: "detection list" where
  "three_in_line = [row 0 0 1 1 [5/10], row (1/4) 0 1 1 [9/10], row (-1/4) 0 1 1 [3/10]]"

text \<open>Two coinciding boxes (IOU 1) with scores 9/10 and 6/10.\<close>
definition same_pair :: "detection list" where
  "same_pair = [row 0 0 1 1 [9/10], row 0 0 1 1 [6/10]]"

text \<open>Three coinciding boxes (IOU 1): boxes 0 and 1 tie at 1/2, box 2 has 3/4.\<close>
definition tie_then_higher :: "detection list" where
  "tie_then_higher = [row 0 0 1 1 [1/2], row 0 0 1 1 [1/2], row 0 0 1 1 [3/4]]"

section \<open>The tensor operations\<close>

lemma map2_expand_as: "map2 f (expand_as x ys) ys = map (f x) ys"
  unfolding expand_as_def by (induction ys) auto

lemma mask_assign_index:
  "length ms = length bs \<Longrightarrow>
   mask_assign (map z bs) ms (map f (mask_index bs ms)) = map2 (\<lambda>b m. if m then f b else z b) bs ms"
  by (induction bs ms rule: list_induct2') auto

lemma fill_row0_False: "fill_row0 r (replicate (length r) False) = r"
  unfolding fill_row0_def by (induction r) auto

lemma length_fill_row0: "length m = length r \<Longrightarrow> length (fill_row0 r m) = length r"
  unfolding fill_row0_def by simp

lemma nth_fill_row0: "length m = length r \<Longrightarrow> c < length r \<Longrightarrow> fill_row0 r m ! c = (if m ! c then 0 else r ! c)"
  unfolding fill_row0_def by simp

lemma length_expanded_fill0:
  "\<forall>m \<in> set ms. length m = length r \<Longrightarrow> length (expanded_fill0 r ms) = length r"
  unfolding expanded_fill0_def
  by (induction ms arbitrary: r) (auto simp: length_fill_row0)

lemma nth_expanded_fill0:
  "\<forall>m \<in> set ms. length m = length r \<Longrightarrow> c < length r \<Longrightarrow>
   expanded_fill0 r ms ! c = (if \<exists>m \<in> set ms. m ! c then 0 else r ! c)"
  unfolding expanded_fill0_def
proof (induction ms arbitrary: r)
  case Nil
  then show ?case by simp
next
  case (Cons m ms)
  have l: "length (fill_row0 r m) = length r" using Cons.prems by (simp add: length_fill_row0)
  have "fold (\<lambda>m r. fill_row0 r m) ms (fill_row0 r m) ! c =
        (if \<exists>m' \<in> set ms. m' ! c then 0 else fill_row0 r m ! c)"
    using Cons.prems l by (intro Cons.IH) auto
  then show ?case using Cons.prems by (auto simp: nth_fill_row0)
qed

lemma ex_mask_index:
  "length ms = length bs \<Longrightarrow>
   (\<exists>x \<in> set (mask_index bs ms). Q x) = (\<exists>k < length bs. ms ! k \<and> Q (bs ! k))"
  by (induction bs ms rule: list_induct2') (auto simp: Ex_less_Suc2)

lemma thresh_mask_eq: "map (\<lambda>v. iou_gt v t) (map2 bbox_iou (expand_as (bboxes ! i) (drop (i + 1) bboxes)) (drop (i + 1) bboxes)) = thresh_mask_of bboxes t i"
    by (simp add: map2_expand_as thresh_mask_of_def)

lemma map_Not_lt: "map Not (map2 (<) (a::real list) r) = map2 (\<lambda>a b. \<not> a < b) a r"
  by (simp add: case_prod_unfold)

lemma zero_mask_b_eq: 
  assumes len: "length ms = length bs"
  shows  "mask_assign (map (\<lambda>r. replicate (length r) False) bs) ms
              (map (map Not) (map (\<lambda>r. map2 (<) (a::real list) r) (mask_index bs ms)))
            = map2 (\<lambda>b m. if m then map2 (\<lambda>a b. \<not> a < b) a b else replicate (length b) False) bs ms"
proof -
  have "map (map Not) (map (\<lambda>r. map2 (<) a r) (mask_index bs ms)) = map (\<lambda>r. map2 (\<lambda>a b. \<not> a < b) a r) (mask_index bs ms)"
    by (auto split: prod.splits)
  then show ?thesis
    using mask_assign_index[OF len, of "\<lambda>r. replicate (length r) False" "\<lambda>r. map2 (\<lambda>a b. \<not> a < b) a r"]
    by (simp only:)
qed

lemma fill0_eq: 
  assumes len: "length ms = length bs"
  shows "fill0 bs (map2 (\<lambda>b m. if m then g b else replicate (length b) False) bs ms)
           = map2 (\<lambda>r m. if m then fill_row0 r (g r) else r) bs ms"
    using len unfolding fill0_def
    by (intro nth_equalityI) (auto simp: fill_row0_False)


lemma length_thresh_mask_of: "length (thresh_mask_of bboxes t i) = length bboxes - (i + 1)"
  by (simp add: thresh_mask_of_def)

lemma nth_thresh_mask_of:
  assumes "i + 1 + k < length bboxes"
  shows "thresh_mask_of bboxes t i ! k = iou_gt (bbox_iou (bboxes ! i) (bboxes ! (i + 1 + k))) t"
proof -
  have "i + 1 \<le> length bboxes" using assms by simp
  then have "drop (i + 1) bboxes ! k = bboxes ! (i + 1 + k)" by (rule nth_drop)
  moreover have "k < length (drop (i + 1) bboxes)" using assms by simp
  ultimately show ?thesis unfolding thresh_mask_of_def by (simp only: nth_map)
qed

lemma nms_iter_eq:
  assumes "length bboxes = length P"
  shows "nms_iter bboxes t i P =
     take i P
     @ [expanded_fill0 (P ! i) (map (\<lambda>r. map2 (<) (P ! i) r) (mask_index (drop (i + 1) P) (thresh_mask_of bboxes t i)))]
     @ map2 (\<lambda>r m. if m then fill_row0 r (map2 (\<lambda>a b. \<not> a < b) (P ! i) r) else r)
         (drop (i + 1) P) (thresh_mask_of bboxes t i)"
proof -
  let ?ms = "thresh_mask_of bboxes t i"
  let ?bs = "drop (i + 1) P"
  have len: "length ?ms = length ?bs" using assms by (simp add: thresh_mask_of_def)
  have za: "map2 (map2 (<)) (expand_as (P ! i) (mask_index ?bs ?ms)) (mask_index ?bs ?ms)
            = map (\<lambda>r. map2 (<) (P ! i) r) (mask_index ?bs ?ms)"
    by (rule map2_expand_as)
  show ?thesis
    unfolding nms_iter_def Let_def thresh_mask_eq za zero_mask_b_eq[OF len] fill0_eq[OF len] ..
qed

section \<open>One iteration of the loop\<close>

lemma length_nms_iter:
  assumes "length bboxes = length P" "i < length P"
  shows "length (nms_iter bboxes t i P) = length P"
  using assms by (simp add: nms_iter_eq length_thresh_mask_of)

lemma nms_iter_nth_before:
  assumes "length bboxes = length P" "i < length P" "k < i"
  shows "nms_iter bboxes t i P ! k = P ! k"
  using assms by (simp add: nms_iter_eq nth_append)

lemma nms_iter_nth_at:
  assumes "length bboxes = length P" "i < length P"
  shows "nms_iter bboxes t i P ! i =
     expanded_fill0 (P ! i) (map (\<lambda>r. map2 (<) (P ! i) r) (mask_index (drop (i + 1) P) (thresh_mask_of bboxes t i)))"
  using assms by (simp add: nms_iter_eq nth_append)

lemma nms_iter_nth_after:
  assumes L: "length bboxes = length P" and J: "i < j" "j < length P"
  shows "nms_iter bboxes t i P ! j =
     (if iou_gt (bbox_iou (bboxes ! i) (bboxes ! j)) t
      then fill_row0 (P ! j) (map2 (\<lambda>a b. \<not> a < b) (P ! i) (P ! j)) else P ! j)"
proof -
  obtain k where k: "j = i + 1 + k" using J(1) by (metis Suc_eq_plus1 less_iff_Suc_add add_Suc)
  have kl: "k < length (drop (i + 1) P)" using J k by simp
  have km: "k < length (thresh_mask_of bboxes t i)" using J k L by (simp add: length_thresh_mask_of)
  have d: "drop (i + 1) P ! k = P ! j" using J k by (simp add: add.commute)
  have m: "thresh_mask_of bboxes t i ! k = iou_gt (bbox_iou (bboxes ! i) (bboxes ! j)) t"
    using nth_thresh_mask_of[of i k bboxes t] J k L by simp
  have "nms_iter bboxes t i P ! j =
        map2 (\<lambda>r m. if m then fill_row0 r (map2 (\<lambda>a b. \<not> a < b) (P ! i) r) else r)
         (drop (i + 1) P) (thresh_mask_of bboxes t i) ! k"
    using J k by (simp add: nms_iter_eq[OF L] nth_append)
  also have "\<dots> = (if thresh_mask_of bboxes t i ! k
                   then fill_row0 (drop (i + 1) P ! k) (map2 (\<lambda>a b. \<not> a < b) (P ! i) (drop (i + 1) P ! k))
                   else drop (i + 1) P ! k)"
    using kl km by simp
  finally show ?thesis unfolding d m .
qed

lemma rect_nth: "rect C P \<Longrightarrow> k < length P \<Longrightarrow> length (P ! k) = C"
  by (simp add: rect_def list_all_length)

lemma nms_iter_entry_after:
  assumes L: "length bboxes = length P" and J: "i < j" "j < length P"
    and R: "rect C P" and c: "c < C"
  shows "nms_iter bboxes t i P ! j ! c =
     (if iou_gt (bbox_iou (bboxes ! i) (bboxes ! j)) t \<and> \<not> P ! i ! c < P ! j ! c then 0 else P ! j ! c)"
proof -
  have li: "length (P ! i) = C" and lj: "length (P ! j) = C" using R J by (simp_all add: rect_nth)
  show ?thesis
    unfolding nms_iter_nth_after[OF L J]
    using li lj c by (simp add: nth_fill_row0)
qed

lemma nms_iter_length_after:
  assumes L: "length bboxes = length P" and J: "i < j" "j < length P"
    and R: "rect C P"
  shows "length (nms_iter bboxes t i P ! j) = C"
proof -
  have li: "length (P ! i) = C" and lj: "length (P ! j) = C" using R J by (simp_all add: rect_nth)
  show ?thesis
    unfolding nms_iter_nth_after[OF L J]
    using li lj by (simp add: length_fill_row0)
qed

lemma nms_iter_masks_length:
  assumes I: "i < length P" and R: "rect C P"
  shows "\<forall>m \<in> set (map (\<lambda>r. map2 (<) (P ! i) r) (mask_index (drop (i + 1) P) ms)). length m = length (P ! i)"
proof -
  have li: "length (P ! i) = C" using R I by (simp add: rect_nth)
  have "set (mask_index xs ms) \<subseteq> set xs" for xs :: "real list list" and ms
    by (induction xs ms rule: mask_index.induct) auto
  then have "set (mask_index (drop (i + 1) P) ms) \<subseteq> set P"
    using set_drop_subset by fast
  then show ?thesis using R li by (auto simp: rect_def list_all_iff)
qed

lemma nms_iter_length_at:
  assumes L: "length bboxes = length P" and I: "i < length P" and R: "rect C P"
  shows "length (nms_iter bboxes t i P ! i) = C"
  unfolding nms_iter_nth_at[OF L I]
  using length_expanded_fill0[OF nms_iter_masks_length[OF I R]] R I by (simp add: rect_nth)

lemma nms_iter_entry_at:
  assumes L: "length bboxes = length P" and I: "i < length P" and R: "rect C P" and c: "c < C"
  shows "nms_iter bboxes t i P ! i ! c =
     (if \<exists>j. i < j \<and> j < length P \<and> iou_gt (bbox_iou (bboxes ! i) (bboxes ! j)) t \<and> P ! i ! c < P ! j ! c
      then 0 else P ! i ! c)"
proof -
  let ?ms = "thresh_mask_of bboxes t i"
  let ?bs = "drop (i + 1) P"
  have li: "length (P ! i) = C" using R I by (simp add: rect_nth)
  have len: "length ?ms = length ?bs" using L by (simp add: length_thresh_mask_of)
  have "(\<exists>m \<in> set (map (\<lambda>r. map2 (<) (P ! i) r) (mask_index ?bs ?ms)). m ! c)
        = (\<exists>x \<in> set (mask_index ?bs ?ms). map2 (<) (P ! i) x ! c)" by simp
  also have "\<dots> = (\<exists>k < length ?bs. ?ms ! k \<and> map2 (<) (P ! i) (?bs ! k) ! c)"
    by (rule ex_mask_index[OF len])
  also have "\<dots> = (\<exists>j. i < j \<and> j < length P \<and> iou_gt (bbox_iou (bboxes ! i) (bboxes ! j)) t \<and> P ! i ! c < P ! j ! c)"
  proof
    assume "\<exists>k < length ?bs. ?ms ! k \<and> map2 (<) (P ! i) (?bs ! k) ! c"
    then obtain k where k: "k < length ?bs" "?ms ! k" "map2 (<) (P ! i) (?bs ! k) ! c" by blast
    let ?j = "i + 1 + k"
    have j: "i < ?j" "?j < length P" using k(1) by simp_all
    have d: "?bs ! k = P ! ?j" using j by simp
    have lj: "length (P ! ?j) = C" using R j by (simp add: rect_nth)
    have "iou_gt (bbox_iou (bboxes ! i) (bboxes ! ?j)) t"
      using nth_thresh_mask_of[of i k bboxes t] j L k(2) by simp
    moreover have "P ! i ! c < P ! ?j ! c" using k(3) li lj c unfolding d by simp
    ultimately show "\<exists>j. i < j \<and> j < length P \<and> iou_gt (bbox_iou (bboxes ! i) (bboxes ! j)) t \<and> P ! i ! c < P ! j ! c"
      using j by blast
  next
    assume "\<exists>j. i < j \<and> j < length P \<and> iou_gt (bbox_iou (bboxes ! i) (bboxes ! j)) t \<and> P ! i ! c < P ! j ! c"
    then obtain j where j: "i < j" "j < length P" "iou_gt (bbox_iou (bboxes ! i) (bboxes ! j)) t" "P ! i ! c < P ! j ! c"
      by blast
    obtain k where k: "j = i + 1 + k" using j(1) by (metis Suc_eq_plus1 less_iff_Suc_add add_Suc)
    have kl: "k < length ?bs" using j k by simp
    have d: "?bs ! k = P ! j" using j k by (simp add: add.commute)
    have lj: "length (P ! j) = C" using R j by (simp add: rect_nth)
    have "?ms ! k" using nth_thresh_mask_of[of i k bboxes t] j k L by simp
    moreover have "map2 (<) (P ! i) (?bs ! k) ! c" unfolding d using li lj c j(4) by simp
    ultimately show "\<exists>k < length ?bs. ?ms ! k \<and> map2 (<) (P ! i) (?bs ! k) ! c" using kl by blast
  qed
  finally have ex: "(\<exists>m \<in> set (map (\<lambda>r. map2 (<) (P ! i) r) (mask_index ?bs ?ms)). m ! c)
        = (\<exists>j. i < j \<and> j < length P \<and> iou_gt (bbox_iou (bboxes ! i) (bboxes ! j)) t \<and> P ! i ! c < P ! j ! c)" .
  have "nms_iter bboxes t i P ! i ! c =
        (if \<exists>m \<in> set (map (\<lambda>r. map2 (<) (P ! i) r) (mask_index ?bs ?ms)). m ! c then 0 else P ! i ! c)"
    unfolding nms_iter_nth_at[OF L I]
    using nth_expanded_fill0[OF nms_iter_masks_length[OF I R], of c ?ms] c li by simp
  then show ?thesis unfolding ex .
qed

lemma rect_nms_iter:
  assumes L: "length bboxes = length P" and I: "i < length P" and R: "rect C P"
  shows "rect C (nms_iter bboxes t i P)"
proof -
  have "length (nms_iter bboxes t i P ! k) = C" if "k < length P" for k
  proof -
    consider "k < i" | "k = i" | "i < k" by linarith
    then show ?thesis
    proof cases
      case 1 then show ?thesis using nms_iter_nth_before[OF L I] R that by (simp add: rect_nth)
    next
      case 2 then show ?thesis using nms_iter_length_at[OF L I R] by simp
    next
      case 3 then show ?thesis using nms_iter_length_after[OF L _ that R] by simp
    qed
  qed
  then show ?thesis
    unfolding rect_def list_all_length using length_nms_iter[OF L I, of t] by simp
qed

section \<open>The loop\<close>

lemma only_zeroed_refl: "only_zeroed P P"
  unfolding only_zeroed_def by (simp add: list_all2_refl)

lemma only_zeroed_trans: "only_zeroed P Q \<Longrightarrow> only_zeroed Q R \<Longrightarrow> only_zeroed P R"
  unfolding only_zeroed_def
proof (erule list_all2_trans[rotated], assumption)
  fix a b c :: "real list"
  assume "list_all2 (\<lambda>x y. y = x \<or> y = 0) a b" "list_all2 (\<lambda>x y. y = x \<or> y = 0) b c"
  then show "list_all2 (\<lambda>x y. y = x \<or> y = 0) a c"
    by (rule list_all2_trans[rotated]) auto
qed

lemma only_zeroedD:
  assumes "only_zeroed P Q" "k < length P" "c < length (P ! k)"
  shows "Q ! k ! c = P ! k ! c \<or> Q ! k ! c = 0"
proof -
  have "list_all2 (\<lambda>x y. y = x \<or> y = 0) (P ! k) (Q ! k)"
    using assms(1,2) unfolding only_zeroed_def by (rule list_all2_nthD)
  then show ?thesis using assms(3) by (rule list_all2_nthD)
qed

lemma only_zeroed_length: "only_zeroed P Q \<Longrightarrow> length Q = length P"
  unfolding only_zeroed_def by (simp add: list_all2_lengthD)

lemma only_zeroed_row_length: "only_zeroed P Q \<Longrightarrow> k < length P \<Longrightarrow> length (Q ! k) = length (P ! k)"
  unfolding only_zeroed_def by (metis list_all2_lengthD list_all2_nthD)

lemma nms_iter_entry_cases:
  assumes L: "length bboxes = length P" and I: "i < length P" and R: "rect C P"
    and k: "k < length P" and c: "c < C"
  shows "nms_iter bboxes t i P ! k ! c = P ! k ! c \<or> nms_iter bboxes t i P ! k ! c = 0"
proof -
  consider "k < i" | "k = i" | "i < k" by linarith
  then show ?thesis
  proof cases
    case 1 then show ?thesis by (simp add: nms_iter_nth_before[OF L I])
  next
    case 2 then show ?thesis using nms_iter_entry_at[OF L I R c, of t] by (simp split: if_splits)
  next
    case 3 then show ?thesis using nms_iter_entry_after[OF L 3 k R c, of t] by (simp split: if_splits)
  qed
qed

lemma nms_iter_only_zeroed:
  assumes L: "length bboxes = length P" and I: "i < length P" and R: "rect C P"
  shows "only_zeroed P (nms_iter bboxes t i P)"
  unfolding only_zeroed_def
proof (rule list_all2_all_nthI)
  show "length P = length (nms_iter bboxes t i P)" by (simp add: length_nms_iter[OF L I])
next
  fix k assume k: "k < length P"
  have lk: "length (P ! k) = C" using R k by (rule rect_nth)
  have lk': "length (nms_iter bboxes t i P ! k) = C"
    using rect_nms_iter[OF L I R, of t] k by (simp add: rect_nth length_nms_iter[OF L I])
  show "list_all2 (\<lambda>x y. y = x \<or> y = 0) (P ! k) (nms_iter bboxes t i P ! k)"
  proof (rule list_all2_all_nthI)
    show "length (P ! k) = length (nms_iter bboxes t i P ! k)" using lk lk' by simp
  next
    fix c assume "c < length (P ! k)"
    then have "c < C" using lk by simp
    then show "nms_iter bboxes t i P ! k ! c = P ! k ! c \<or> nms_iter bboxes t i P ! k ! c = 0"
      by (rule nms_iter_entry_cases[OF L I R k])
  qed
qed

lemma upt_fold_Suc: "fold f [0..<Suc m] P = f m (fold f [0..<m] P)"
  by simp

lemma loop_shape:
  assumes L: "length bboxes = length P" and R: "rect C P" and m: "m \<le> length P - 1"
  shows "length (fold (nms_iter bboxes t) [0..<m] P) = length P \<and> rect C (fold (nms_iter bboxes t) [0..<m] P)"
  using m
proof (induction m)
  case 0
  then show ?case using R by simp
next
  case (Suc m)
  let ?Q = "fold (nms_iter bboxes t) [0..<m] P"
  have IH: "length ?Q = length P" "rect C ?Q" using Suc by simp_all
  have LQ: "length bboxes = length ?Q" using L IH by simp
  have I: "m < length ?Q" using Suc.prems IH by simp
  show ?case
    unfolding upt_fold_Suc
    using length_nms_iter[OF LQ I, of t] rect_nms_iter[OF LQ I IH(2), of t] IH(1) by simp
qed

lemma loop_only_zeroed:
  assumes L: "length bboxes = length P" and R: "rect C P" and m: "m \<le> length P - 1"
  shows "only_zeroed P (fold (nms_iter bboxes t) [0..<m] P)"
  using m
proof (induction m)
  case 0
  then show ?case by (simp add: only_zeroed_refl)
next
  case (Suc m)
  let ?Q = "fold (nms_iter bboxes t) [0..<m] P"
  have m: "m \<le> length P - 1" using Suc.prems by simp
  have IH: "only_zeroed P ?Q" using Suc.IH m by simp
  have S: "length ?Q = length P" "rect C ?Q" using loop_shape[OF L R m, of t] by simp_all
  have LQ: "length bboxes = length ?Q" using L S by simp
  have I: "m < length ?Q" using Suc.prems S by simp
  show ?case
    unfolding upt_fold_Suc
    using only_zeroed_trans[OF IH nms_iter_only_zeroed[OF LQ I S(2)]] .
qed

lemma nonneg_nth: "nonneg P \<Longrightarrow> k < length P \<Longrightarrow> c < length (P ! k) \<Longrightarrow> 0 \<le> P ! k ! c"
  unfolding nonneg_def by (simp add: list_all_length)

lemma only_zeroed_nonneg:
  assumes "only_zeroed P Q" "nonneg P"
  shows "nonneg Q"
  unfolding nonneg_def list_all_length
proof (intro allI impI)
  fix k c assume k: "k < length Q" and c: "c < length (Q ! k)"
  have k': "k < length P" using k only_zeroed_length[OF assms(1)] by simp
  have c': "c < length (P ! k)" using c only_zeroed_row_length[OF assms(1) k'] by simp
  show "0 \<le> Q ! k ! c"
    using only_zeroedD[OF assms(1) k' c'] nonneg_nth[OF assms(2) k' c'] by auto
qed

lemma loop_resolved:
  assumes L: "length bboxes = length P" and R: "rect C P" and m: "m \<le> length P - 1"
    and p: "i < m" "i < j" "j < length P" "iou_gt (bbox_iou (bboxes ! i) (bboxes ! j)) t" "c < C"
  shows "fold (nms_iter bboxes t) [0..<m] P ! i ! c = 0 \<or> fold (nms_iter bboxes t) [0..<m] P ! j ! c = 0"
  using m p(1)
proof (induction m)
  case 0
  then show ?case by simp
next
  case (Suc m)
  let ?Q = "fold (nms_iter bboxes t) [0..<m] P"
  let ?Q' = "nms_iter bboxes t m ?Q"
  have m: "m \<le> length P - 1" using Suc.prems by simp
  have S: "length ?Q = length P" "rect C ?Q" using loop_shape[OF L R m, of t] by simp_all
  have LQ: "length bboxes = length ?Q" using L S by simp
  have I: "m < length ?Q" using Suc.prems S by simp
  have jQ: "j < length ?Q" using p(3) S by simp
  have iQ: "i < length ?Q" using p(2,3) S by simp
  have Z: "only_zeroed ?Q ?Q'" by (rule nms_iter_only_zeroed[OF LQ I S(2)])
  have keep: "?Q' ! k ! c = 0" if "?Q ! k ! c = 0" "k < length ?Q" for k
    using only_zeroedD[OF Z that(2), of c] that(1) rect_nth[OF S(2) that(2)] p(5) by auto
  show ?case
  proof (cases "i < m")
    case True
    then have "?Q ! i ! c = 0 \<or> ?Q ! j ! c = 0" using Suc.IH m by simp
    then show ?thesis unfolding upt_fold_Suc using keep iQ jQ by blast
  next
    case False
    then have im: "i = m" using Suc.prems by simp
    have mj: "m < j" using p(2) im by simp
    show ?thesis
    proof (cases "?Q ! m ! c < ?Q ! j ! c")
      case True
      then have "?Q' ! m ! c = 0"
        using nms_iter_entry_at[OF LQ I S(2) p(5), of t] mj jQ p(4) im by auto
      then show ?thesis unfolding upt_fold_Suc im by simp
    next
      case False
      then have "?Q' ! j ! c = 0"
        using nms_iter_entry_after[OF LQ mj jQ S(2) p(5), of t] p(4) im by simp
      then show ?thesis unfolding upt_fold_Suc by simp
    qed
  qed
qed

lemma nms_iter_fixpoint:
  assumes L: "length bboxes = length P" and I: "i < length P" and R: "rect C P" and N: "nonneg P"
    and res: "\<And>j c. i < j \<Longrightarrow> j < length P \<Longrightarrow> iou_gt (bbox_iou (bboxes ! i) (bboxes ! j)) t \<Longrightarrow> c < C
                \<Longrightarrow> P ! i ! c = 0 \<or> P ! j ! c = 0"
  shows "nms_iter bboxes t i P = P"
proof (rule nth_equalityI)
  show "length (nms_iter bboxes t i P) = length P" by (rule length_nms_iter[OF L I])
next
  fix k assume "k < length (nms_iter bboxes t i P)"
  then have k: "k < length P" by (simp add: length_nms_iter[OF L I])
  have lk: "length (P ! k) = C" using R k by (rule rect_nth)
  have lk': "length (nms_iter bboxes t i P ! k) = C"
    using rect_nms_iter[OF L I R, of t] k by (simp add: rect_nth length_nms_iter[OF L I])
  show "nms_iter bboxes t i P ! k = P ! k"
  proof (rule nth_equalityI)
    show "length (nms_iter bboxes t i P ! k) = length (P ! k)" using lk lk' by simp
  next
    fix c assume "c < length (nms_iter bboxes t i P ! k)"
    then have c: "c < C" using lk' by simp
    have nn: "0 \<le> P ! k' ! c" if "k' < length P" for k'
      using nonneg_nth[OF N that, of c] rect_nth[OF R that] c by simp
    consider "k < i" | "k = i" | "i < k" by linarith
    then show "nms_iter bboxes t i P ! k ! c = P ! k ! c"
    proof cases
      case 1 then show ?thesis by (simp add: nms_iter_nth_before[OF L I])
    next
      case 2
      have "P ! i ! c = 0" if "i < j" "j < length P" "iou_gt (bbox_iou (bboxes ! i) (bboxes ! j)) t"
          "P ! i ! c < P ! j ! c" for j
        using res[OF that(1,2,3) c] that(4) nn[OF I] by auto
      then show ?thesis unfolding 2 nms_iter_entry_at[OF L I R c] by auto
    next
      case 3
      have "P ! k ! c = 0" if "iou_gt (bbox_iou (bboxes ! i) (bboxes ! k)) t" "\<not> P ! i ! c < P ! k ! c"
        using res[OF 3 k that(1) c] that(2) nn[OF k] by auto
      then show ?thesis unfolding nms_iter_entry_after[OF L 3 k R c] by auto
    qed
  qed
qed

lemma fold_fixpoint:
  assumes "\<And>i. i \<in> set xs \<Longrightarrow> f i P = P"
  shows "fold f xs P = P"
  using assms by (induction xs) simp_all

lemma nms_loop_shape:
  assumes L: "length bboxes = length P" and R: "rect C P"
  shows "length (nms_loop bboxes t P) = length P" "rect C (nms_loop bboxes t P)"
  using loop_shape[OF L R, of "length P - 1" t] L unfolding nms_loop_def by simp_all

lemma nms_loop_only_zeroed:
  assumes L: "length bboxes = length P" and R: "rect C P"
  shows "only_zeroed P (nms_loop bboxes t P)"
  using loop_only_zeroed[OF L R, of "length P - 1" t] L unfolding nms_loop_def by simp

lemma nms_loop_resolved:
  assumes L: "length bboxes = length P" and R: "rect C P"
    and p: "i < j" "j < length P" "iou_gt (bbox_iou (bboxes ! i) (bboxes ! j)) t" "c < C"
  shows "nms_loop bboxes t P ! i ! c = 0 \<or> nms_loop bboxes t P ! j ! c = 0"
proof -
  have "i < length P - 1" using p(1,2) by simp
  then show ?thesis
    using loop_resolved[OF L R _ _ p, of "length P - 1"] L unfolding nms_loop_def by simp
qed

lemma nms_loop_idem:
  assumes L: "length bboxes = length P" and R: "rect C P" and N: "nonneg P"
  shows "nms_loop bboxes t (nms_loop bboxes t P) = nms_loop bboxes t P"
proof -
  let ?Q = "nms_loop bboxes t P"
  have S: "length ?Q = length P" "rect C ?Q" using nms_loop_shape[OF L R] by simp_all
  have LQ: "length bboxes = length ?Q" using L S by simp
  have NQ: "nonneg ?Q" using only_zeroed_nonneg[OF nms_loop_only_zeroed[OF L R] N] .
  have "nms_iter bboxes t i ?Q = ?Q" if "i \<in> set [0..<length bboxes - 1]" for i
  proof (rule nms_iter_fixpoint[OF LQ _ S(2) NQ])
    show "i < length ?Q" using that LQ by simp
  next
    fix j c assume "i < j" "j < length ?Q" "iou_gt (bbox_iou (bboxes ! i) (bboxes ! j)) t" "c < C"
    then show "?Q ! i ! c = 0 \<or> ?Q ! j ! c = 0"
      using nms_loop_resolved[OF L R, of i j t c] S by simp
  qed
  then have "fold (nms_iter bboxes t) [0..<length bboxes - 1] ?Q = ?Q" by (rule fold_fixpoint)
  then show ?thesis unfolding nms_loop_def[of bboxes t ?Q] .
qed

section \<open>Geometry of \<open>bbox_iou\<close>\<close>

lemma interArea_commute: "interArea a b = interArea b a"
  by (simp add: interArea_def Let_def max.commute min.commute)

lemma unionArea_commute: "unionArea a b = unionArea b a"
  by (simp add: unionArea_def interArea_commute add.commute)

lemma interArea_nonneg: "0 \<le> interArea a b"
  by (simp add: interArea_def Let_def clamp_min_def)

lemma interArea_le_left:
  assumes "BBOX_X1 a \<le> BBOX_X2 a" "BBOX_Y1 a \<le> BBOX_Y2 a"
  shows "interArea a b \<le> bboxArea a"
proof -
  let ?w = "clamp_min (min (BBOX_X2 a) (BBOX_X2 b) - max (BBOX_X1 a) (BBOX_X1 b)) 0"
  let ?h = "clamp_min (min (BBOX_Y2 a) (BBOX_Y2 b) - max (BBOX_Y1 a) (BBOX_Y1 b)) 0"
  have w: "?w \<le> BBOX_X2 a - BBOX_X1 a" using assms(1) by (simp add: clamp_min_def)
  have h: "?h \<le> BBOX_Y2 a - BBOX_Y1 a" using assms(2) by (simp add: clamp_min_def)
  have h0: "0 \<le> ?h" by (simp add: clamp_min_def)
  have w0: "0 \<le> BBOX_X2 a - BBOX_X1 a" using assms(1) by simp
  have "?w * ?h \<le> (BBOX_X2 a - BBOX_X1 a) * (BBOX_Y2 a - BBOX_Y1 a)"
    using w h w0 h0 by (rule mult_mono)
  then show ?thesis by (simp add: interArea_def Let_def bboxArea_def)
qed

lemma interArea_le_right:
  assumes "BBOX_X1 b \<le> BBOX_X2 b" "BBOX_Y1 b \<le> BBOX_Y2 b"
  shows "interArea a b \<le> bboxArea b"
  using interArea_le_left[OF assms, of a] by (simp add: interArea_commute)

lemma interArea_pos_unionArea_pos:
  assumes "0 < interArea a b"
  shows "0 < unionArea a b"
proof -
  let ?w = "clamp_min (min (BBOX_X2 a) (BBOX_X2 b) - max (BBOX_X1 a) (BBOX_X1 b)) 0"
  let ?h = "clamp_min (min (BBOX_Y2 a) (BBOX_Y2 b) - max (BBOX_Y1 a) (BBOX_Y1 b)) 0"
  have p: "0 < ?w * ?h" using assms by (simp add: interArea_def Let_def)
  have w0: "0 \<le> ?w" and h0: "0 \<le> ?h" by (simp_all add: clamp_min_def)
  have "?w \<noteq> 0" "?h \<noteq> 0" using p by auto
  then have w: "0 < ?w" and h: "0 < ?h" using w0 h0 by simp_all
  have "BBOX_X1 a < BBOX_X2 a" "BBOX_X1 b < BBOX_X2 b" using w by (auto simp: clamp_min_def max_def min_def split: if_splits)
  moreover have "BBOX_Y1 a < BBOX_Y2 a" "BBOX_Y1 b < BBOX_Y2 b" using h by (auto simp: clamp_min_def max_def min_def split: if_splits)
  ultimately have "interArea a b \<le> bboxArea a" "interArea a b \<le> bboxArea b"
    using interArea_le_left[of a b] interArea_le_right[of b a] by simp_all
  then show ?thesis using assms by (simp add: unionArea_def)
qed

text \<open>A zero denominator comes with a zero numerator: the quotient the source computes
  there is \<open>0 / 0\<close>, which compares false with every threshold.\<close>
lemma unionArea_zero_interArea_zero: "unionArea a b = 0 \<Longrightarrow> interArea a b = 0"
  using interArea_pos_unionArea_pos[of a b] interArea_nonneg[of a b] by (cases "interArea a b = 0") auto

text \<open>Claim C8. For every pair of corner-form boxes \<open>a\<close> and \<open>b\<close>, \<open>bbox_iou\<close> is
  symmetric: \<open>bbox_iou a b\<close> equals \<open>bbox_iou b a\<close>. This holds with a non-zero union area,
  where both sides are the same number, and with a zero union area, where both sides are
  undefined.\<close>
theorem bbox_iou_symmetric: "bbox_iou a b = bbox_iou b a"
  by (simp add: bbox_iou_def interArea_commute unionArea_commute)

text \<open>Claim C9. For every pair of non-degenerate corner-form boxes (\<open>x1 \<le> x2\<close> and
  \<open>y1 \<le> y2\<close> for both) with positive union area, the computed IOU is a number between 0
  and 1 inclusive. The intersection width and height are clamped to be at least 0, the
  intersection area is never negative, and an axis on which the boxes do not overlap makes
  the intersection area 0.\<close>
theorem bbox_iou_bounded:
  assumes "BBOX_X1 a \<le> BBOX_X2 a" "BBOX_Y1 a \<le> BBOX_Y2 a"
    and "BBOX_X1 b \<le> BBOX_X2 b" "BBOX_Y1 b \<le> BBOX_Y2 b"
    and "0 < unionArea a b"
  shows "(\<exists>v. bbox_iou a b = Some v \<and> 0 \<le> v \<and> v \<le> 1)
       \<and> 0 \<le> clamp_min (min (BBOX_X2 a) (BBOX_X2 b) - max (BBOX_X1 a) (BBOX_X1 b)) 0
       \<and> 0 \<le> clamp_min (min (BBOX_Y2 a) (BBOX_Y2 b) - max (BBOX_Y1 a) (BBOX_Y1 b)) 0
       \<and> 0 \<le> interArea a b
       \<and> (min (BBOX_X2 a) (BBOX_X2 b) \<le> max (BBOX_X1 a) (BBOX_X1 b) \<longrightarrow> interArea a b = 0)
       \<and> (min (BBOX_Y2 a) (BBOX_Y2 b) \<le> max (BBOX_Y1 a) (BBOX_Y1 b) \<longrightarrow> interArea a b = 0)"
proof -
  have i0: "0 \<le> interArea a b" by (rule interArea_nonneg)
  have "interArea a b \<le> bboxArea a" "interArea a b \<le> bboxArea b"
    using assms(1-4) by (simp_all add: interArea_le_left interArea_le_right)
  then have le: "interArea a b \<le> unionArea a b" by (simp add: unionArea_def)
  have "0 \<le> interArea a b / unionArea a b" using i0 assms(5) by simp
  moreover have "interArea a b / unionArea a b \<le> 1" using le assms(5) by simp
  ultimately have "\<exists>v. bbox_iou a b = Some v \<and> 0 \<le> v \<and> v \<le> 1"
    using assms(5) by (simp add: bbox_iou_def)
  moreover have "interArea a b = 0"
    if "min (BBOX_X2 a) (BBOX_X2 b) \<le> max (BBOX_X1 a) (BBOX_X1 b)"
    using that by (simp add: interArea_def Let_def clamp_min_def)
  moreover have "interArea a b = 0"
    if "min (BBOX_Y2 a) (BBOX_Y2 b) \<le> max (BBOX_Y1 a) (BBOX_Y1 b)"
    using that by (simp add: interArea_def Let_def clamp_min_def)
  ultimately show ?thesis using i0 by (simp add: clamp_min_def)
qed

text \<open>The theorem at the two boxes of scenario B, whose IOU is 3/5.\<close>
theorem bbox_iou_bounded_witness:
  "BBOX_X1 (to_bbox (row 0 0 1 1 [])) \<le> BBOX_X2 (to_bbox (row 0 0 1 1 []))
   \<and> BBOX_Y1 (to_bbox (row 0 0 1 1 [])) \<le> BBOX_Y2 (to_bbox (row 0 0 1 1 []))
   \<and> BBOX_X1 (to_bbox (row (1/4) 0 1 1 [])) \<le> BBOX_X2 (to_bbox (row (1/4) 0 1 1 []))
   \<and> BBOX_Y1 (to_bbox (row (1/4) 0 1 1 [])) \<le> BBOX_Y2 (to_bbox (row (1/4) 0 1 1 []))
   \<and> 0 < unionArea (to_bbox (row 0 0 1 1 [])) (to_bbox (row (1/4) 0 1 1 []))
   \<and> bbox_iou (to_bbox (row 0 0 1 1 [])) (to_bbox (row (1/4) 0 1 1 [])) = Some (3/5)
   \<and> (\<exists>v. bbox_iou (to_bbox (row 0 0 1 1 [])) (to_bbox (row (1/4) 0 1 1 [])) = Some v
          \<and> 0 \<le> v \<and> v \<le> 1)
   \<and> 0 \<le> interArea (to_bbox (row 0 0 1 1 [])) (to_bbox (row (1/4) 0 1 1 []))"
  using bbox_iou_bounded[of "to_bbox (row 0 0 1 1 [])" "to_bbox (row (1/4) 0 1 1 [])"]
  by (simp add: row_def to_bbox_def unionArea_def bboxArea_def interArea_def
      clamp_min_def bbox_iou_def Let_def)

section \<open>Claims about one iteration of the loop\<close>

text \<open>Claim C1 as stated fails where a third box takes part: the claim lets the
  lower-indexed box of a tie keep its score without condition. With three coinciding boxes
  and scores 1/2, 1/2, 3/4, boxes 0 and 1 tie, and iteration 0 zeroes the entry of box 1
  (the tie) and also the entry of box 0 (it is below box 2): the call leaves 0, 0, 3/4.\<close>
theorem nms_iter_tie_break_counterexample:
  "iou_gt (bbox_iou (map to_bbox tie_then_higher ! 0) (map to_bbox tie_then_higher ! 1)) (1/2)
   \<and> map YOLO_CLASSES tie_then_higher ! 0 ! 0 = 1/2
   \<and> map YOLO_CLASSES tie_then_higher ! 1 ! 0 = 1/2
   \<and> nms_iter (map to_bbox tie_then_higher) (1/2) 0 (map YOLO_CLASSES tie_then_higher) ! 0 ! 0
       \<noteq> map YOLO_CLASSES tie_then_higher ! 0 ! 0
   \<and> nms_iter (map to_bbox tie_then_higher) (1/2) 0 (map YOLO_CLASSES tie_then_higher)
       = [[0], [0], [3/4]]
   \<and> map YOLO_CLASSES (greedy_nms_inplace tie_then_higher (1/2)) = [[0], [0], [3/4]]"
proof -
  have O: "iou_gt (bbox_iou (map to_bbox tie_then_higher ! 0) (map to_bbox tie_then_higher ! 1)) (1/2)"
    by (simp add: tie_then_higher_def row_def to_bbox_def unionArea_def bboxArea_def
        interArea_def clamp_min_def bbox_iou_def iou_gt_def Let_def)
  have S: "map YOLO_CLASSES tie_then_higher ! 0 ! 0 = 1/2"
      "map YOLO_CLASSES tie_then_higher ! 1 ! 0 = 1/2"
    by (simp_all add: tie_then_higher_def row_def)
  have V: "nms_iter (map to_bbox tie_then_higher) (1/2) 0 (map YOLO_CLASSES tie_then_higher)
           = [[0], [0], [3/4]]"
    by code_simp
  have G: "map YOLO_CLASSES (greedy_nms_inplace tie_then_higher (1/2)) = [[0], [0], [3/4]]"
    by code_simp
  show ?thesis using O S G unfolding V by simp
qed

text \<open>Claim C1, amended. For every pair of boxes \<open>(i, j)\<close> with \<open>i < j\<close> whose IOU exceeds
  the threshold, and for every class channel \<open>c\<close>, iteration \<open>i\<close> compares
  \<open>a = class_probs[i][c]\<close> and \<open>b = class_probs[j][c]\<close> as they are when the iteration
  starts: if \<open>a < b\<close> it zeroes \<open>class_probs[i][c]\<close>, otherwise (\<open>a \<ge> b\<close>, equality
  included) it zeroes \<open>class_probs[j][c]\<close>. On equal scores the entry of the higher-indexed
  box is zeroed, and the entry of the lower-indexed box survives the iteration unless
  another later box whose IOU with box \<open>i\<close> exceeds the threshold has a strictly larger
  score for class \<open>c\<close>.\<close>
theorem nms_iter_tie_break:
  assumes "length bboxes = length class_probs" and "rect C class_probs"
    and "i < j" and "j < length class_probs" and "c < C"
    and "iou_gt (bbox_iou (bboxes ! i) (bboxes ! j)) nms_thresh"
  shows "(class_probs ! i ! c < class_probs ! j ! c \<longrightarrow>
            nms_iter bboxes nms_thresh i class_probs ! i ! c = 0)
       \<and> (\<not> class_probs ! i ! c < class_probs ! j ! c \<longrightarrow>
            nms_iter bboxes nms_thresh i class_probs ! j ! c = 0)
       \<and> (class_probs ! i ! c = class_probs ! j ! c \<longrightarrow>
            nms_iter bboxes nms_thresh i class_probs ! j ! c = 0
            \<and> ((\<forall>j'. i < j' \<and> j' < length class_probs
                      \<and> iou_gt (bbox_iou (bboxes ! i) (bboxes ! j')) nms_thresh
                    \<longrightarrow> \<not> class_probs ! i ! c < class_probs ! j' ! c)
                 \<longrightarrow> nms_iter bboxes nms_thresh i class_probs ! i ! c = class_probs ! i ! c))"
proof -
  have I: "i < length class_probs" using assms(3,4) by simp
  note at = nms_iter_entry_at[OF assms(1) I assms(2,5), of nms_thresh]
  note after = nms_iter_entry_after[OF assms(1,3,4,2,5), of nms_thresh]
  have 1: "nms_iter bboxes nms_thresh i class_probs ! i ! c = 0"
    if "class_probs ! i ! c < class_probs ! j ! c"
    using at that assms(3,4,6) by auto
  have 2: "nms_iter bboxes nms_thresh i class_probs ! j ! c = 0"
    if "\<not> class_probs ! i ! c < class_probs ! j ! c"
    using after that assms(6) by simp
  have 3: "nms_iter bboxes nms_thresh i class_probs ! i ! c = class_probs ! i ! c"
    if "\<forall>j'. i < j' \<and> j' < length class_probs
              \<and> iou_gt (bbox_iou (bboxes ! i) (bboxes ! j')) nms_thresh
            \<longrightarrow> \<not> class_probs ! i ! c < class_probs ! j' ! c"
    using at that by auto
  show ?thesis using 1 2 3 by simp
qed

text \<open>The theorem at scenario B, iteration 0, boxes 0 and 1, class 1 (scores 3/10 and
  3/10); the last line is the buffer after the whole call, as scenario B states it.\<close>
theorem nms_iter_tie_break_witness:
  "length (map to_bbox scenario_B) = length (map YOLO_CLASSES scenario_B)
   \<and> rect 2 (map YOLO_CLASSES scenario_B)
   \<and> (0::nat) < 1 \<and> 1 < length (map YOLO_CLASSES scenario_B) \<and> (1::nat) < 2
   \<and> iou_gt (bbox_iou (map to_bbox scenario_B ! 0) (map to_bbox scenario_B ! 1)) (1/2)
   \<and> map YOLO_CLASSES scenario_B ! 0 ! 1 = map YOLO_CLASSES scenario_B ! 1 ! 1
   \<and> nms_iter (map to_bbox scenario_B) (1/2) 0 (map YOLO_CLASSES scenario_B) ! 1 ! 1 = 0
   \<and> nms_iter (map to_bbox scenario_B) (1/2) 0 (map YOLO_CLASSES scenario_B) ! 0 ! 1 = 3/10
   \<and> greedy_nms_inplace scenario_B (1/2)
       = [row 0 0 1 1 [9/10, 3/10], row (1/4) 0 1 1 [0, 0]]"
proof -
  have L: "length (map to_bbox scenario_B) = length (map YOLO_CLASSES scenario_B)" by simp
  have R: "rect 2 (map YOLO_CLASSES scenario_B)"
    by (simp add: rect_def scenario_B_def row_def)
  have J: "1 < length (map YOLO_CLASSES scenario_B)" by (simp add: scenario_B_def)
  have O: "iou_gt (bbox_iou (map to_bbox scenario_B ! 0) (map to_bbox scenario_B ! 1)) (1/2)"
    by (simp add: scenario_B_def row_def to_bbox_def unionArea_def bboxArea_def interArea_def
        clamp_min_def bbox_iou_def iou_gt_def Let_def)
  have E: "map YOLO_CLASSES scenario_B ! 0 ! 1 = map YOLO_CLASSES scenario_B ! 1 ! 1"
    by (simp add: scenario_B_def row_def)
  have V: "nms_iter (map to_bbox scenario_B) (1/2) 0 (map YOLO_CLASSES scenario_B)
           = [[9/10, 3/10], [0, 0]]"
    by code_simp
  have G: "greedy_nms_inplace scenario_B (1/2)
           = [row 0 0 1 1 [9/10, 3/10], row (1/4) 0 1 1 [0, 0]]"
    by code_simp
  show ?thesis
    using nms_iter_tie_break[OF L R _ J _ O, where c = 1] L R J O E G unfolding V by simp
qed

text \<open>Claim C5. For every pair of boxes \<open>(i, j)\<close> with \<open>i < j\<close> whose IOU does not exceed
  the threshold (it is at most the threshold, or undefined), iteration \<open>i\<close> leaves the whole
  row of box \<open>j\<close> as it was, and an entry of box \<open>i\<close> changes only when another later
  box, one whose IOU with \<open>i\<close> does exceed the threshold, out-scores it: the strict
  inequality is required for any suppression between the pair.\<close>
theorem nms_iter_below_threshold:
  assumes "length bboxes = length class_probs" and "rect C class_probs"
    and "i < j" and "j < length class_probs" and "c < C"
    and "\<not> iou_gt (bbox_iou (bboxes ! i) (bboxes ! j)) nms_thresh"
  shows "nms_iter bboxes nms_thresh i class_probs ! j = class_probs ! j
       \<and> (nms_iter bboxes nms_thresh i class_probs ! i ! c \<noteq> class_probs ! i ! c \<longrightarrow>
            (\<exists>j'. j' \<noteq> j \<and> i < j' \<and> j' < length class_probs
                 \<and> iou_gt (bbox_iou (bboxes ! i) (bboxes ! j')) nms_thresh
                 \<and> class_probs ! i ! c < class_probs ! j' ! c))"
proof -
  have I: "i < length class_probs" using assms(3,4) by simp
  have "nms_iter bboxes nms_thresh i class_probs ! j = class_probs ! j"
    using nms_iter_nth_after[OF assms(1,3,4), of nms_thresh] assms(6) by simp
  moreover have "\<exists>j'. j' \<noteq> j \<and> i < j' \<and> j' < length class_probs
                 \<and> iou_gt (bbox_iou (bboxes ! i) (bboxes ! j')) nms_thresh
                 \<and> class_probs ! i ! c < class_probs ! j' ! c"
    if ne: "nms_iter bboxes nms_thresh i class_probs ! i ! c \<noteq> class_probs ! i ! c"
  proof -
    obtain j' where j': "i < j'" "j' < length class_probs"
        "iou_gt (bbox_iou (bboxes ! i) (bboxes ! j')) nms_thresh"
        "class_probs ! i ! c < class_probs ! j' ! c"
      using nms_iter_entry_at[OF assms(1) I assms(2,5), of nms_thresh] ne
      by (auto split: if_splits)
    have "j' \<noteq> j" using j'(3) assms(6) by auto
    then show ?thesis using j' by blast
  qed
  ultimately show ?thesis by blast
qed

text \<open>The theorem at scenario C (IOU 1/5, threshold 1/2): the iteration, and with it the
  whole call, changes nothing, although box 1 has the larger score for class 1.\<close>
theorem nms_iter_below_threshold_witness:
  "length (map to_bbox scenario_C) = length (map YOLO_CLASSES scenario_C)
   \<and> rect 2 (map YOLO_CLASSES scenario_C)
   \<and> (0::nat) < 1 \<and> 1 < length (map YOLO_CLASSES scenario_C) \<and> (1::nat) < 2
   \<and> bbox_iou (map to_bbox scenario_C ! 0) (map to_bbox scenario_C ! 1) = Some (1/5)
   \<and> \<not> iou_gt (bbox_iou (map to_bbox scenario_C ! 0) (map to_bbox scenario_C ! 1)) (1/2)
   \<and> nms_iter (map to_bbox scenario_C) (1/2) 0 (map YOLO_CLASSES scenario_C) ! 1
       = map YOLO_CLASSES scenario_C ! 1
   \<and> nms_iter (map to_bbox scenario_C) (1/2) 0 (map YOLO_CLASSES scenario_C) ! 0 ! 1
       = map YOLO_CLASSES scenario_C ! 0 ! 1
   \<and> greedy_nms_inplace scenario_C (1/2) = scenario_C"
proof -
  have L: "length (map to_bbox scenario_C) = length (map YOLO_CLASSES scenario_C)" by simp
  have R: "rect 2 (map YOLO_CLASSES scenario_C)"
    by (simp add: rect_def scenario_C_def row_def)
  have J: "1 < length (map YOLO_CLASSES scenario_C)" by (simp add: scenario_C_def)
  have I: "bbox_iou (map to_bbox scenario_C ! 0) (map to_bbox scenario_C ! 1) = Some (1/5)"
    by (simp add: scenario_C_def row_def to_bbox_def unionArea_def bboxArea_def interArea_def
        clamp_min_def bbox_iou_def Let_def)
  have O: "\<not> iou_gt (bbox_iou (map to_bbox scenario_C ! 0) (map to_bbox scenario_C ! 1)) (1/2)"
    unfolding I by (simp add: iou_gt_def)
  have V: "nms_iter (map to_bbox scenario_C) (1/2) 0 (map YOLO_CLASSES scenario_C)
           = map YOLO_CLASSES scenario_C"
    by code_simp
  have G: "greedy_nms_inplace scenario_C (1/2) = scenario_C"
    by code_simp
  show ?thesis
    using nms_iter_below_threshold[OF L R _ J _ O, where c = 1] L R J I O G unfolding V by simp
qed

text \<open>Claim C10. Within one iteration \<open>i\<close>, the comparisons of box \<open>i\<close> against all later
  boxes over the threshold use the scores of box \<open>i\<close> as they are when the iteration
  starts. When a later box \<open>j1\<close> out-scores box \<open>i\<close> for class \<open>c\<close>, the entry of box \<open>i\<close>
  is zeroed and the entry of \<open>j1\<close> is kept; a later box \<open>j2\<close> whose score is not above
  that of box \<open>i\<close> at the start of the iteration still has its entry zeroed, whether \<open>j2\<close>
  comes before or after \<open>j1\<close>.\<close>
theorem nms_iter_snapshot:
  assumes "length bboxes = length class_probs" and "rect C class_probs" and "c < C"
    and "i < j1" and "j1 < length class_probs"
    and "i < j2" and "j2 < length class_probs"
    and "iou_gt (bbox_iou (bboxes ! i) (bboxes ! j1)) nms_thresh"
    and "iou_gt (bbox_iou (bboxes ! i) (bboxes ! j2)) nms_thresh"
    and "class_probs ! i ! c < class_probs ! j1 ! c"
    and "class_probs ! j2 ! c \<le> class_probs ! i ! c"
  shows "nms_iter bboxes nms_thresh i class_probs ! i ! c = 0
       \<and> nms_iter bboxes nms_thresh i class_probs ! j1 ! c = class_probs ! j1 ! c
       \<and> nms_iter bboxes nms_thresh i class_probs ! j2 ! c = 0"
proof -
  have I: "i < length class_probs" using assms(4,5) by simp
  have "nms_iter bboxes nms_thresh i class_probs ! i ! c = 0"
    using nms_iter_entry_at[OF assms(1) I assms(2,3), of nms_thresh] assms(4,5,8,10) by auto
  moreover have "nms_iter bboxes nms_thresh i class_probs ! j1 ! c = class_probs ! j1 ! c"
    using nms_iter_entry_after[OF assms(1,4,5,2,3), of nms_thresh] assms(10) by simp
  moreover have "nms_iter bboxes nms_thresh i class_probs ! j2 ! c = 0"
    using nms_iter_entry_after[OF assms(1,6,7,2,3), of nms_thresh] assms(9,11) by simp
  ultimately show ?thesis by simp
qed

text \<open>The theorem at three boxes where box 0 (score 1/2) overlaps box 1 (score 9/10) and
  box 2 (score 3/10): box 0 loses to box 1, and box 2 loses to box 0 all the same. Boxes 1
  and 2 do not overlap above the threshold, so this is also the result of the whole call.\<close>
theorem nms_iter_snapshot_witness:
  "length (map to_bbox three_in_line) = length (map YOLO_CLASSES three_in_line)
   \<and> rect 1 (map YOLO_CLASSES three_in_line) \<and> (0::nat) < 1
   \<and> (0::nat) < 1 \<and> 1 < length (map YOLO_CLASSES three_in_line)
   \<and> (0::nat) < 2 \<and> 2 < length (map YOLO_CLASSES three_in_line)
   \<and> iou_gt (bbox_iou (map to_bbox three_in_line ! 0) (map to_bbox three_in_line ! 1)) (1/2)
   \<and> iou_gt (bbox_iou (map to_bbox three_in_line ! 0) (map to_bbox three_in_line ! 2)) (1/2)
   \<and> map YOLO_CLASSES three_in_line ! 0 ! 0 < map YOLO_CLASSES three_in_line ! 1 ! 0
   \<and> map YOLO_CLASSES three_in_line ! 2 ! 0 \<le> map YOLO_CLASSES three_in_line ! 0 ! 0
   \<and> nms_iter (map to_bbox three_in_line) (1/2) 0 (map YOLO_CLASSES three_in_line)
       = [[0], [9/10], [0]]
   \<and> map YOLO_CLASSES (greedy_nms_inplace three_in_line (1/2)) = [[0], [9/10], [0]]"
proof -
  have L: "length (map to_bbox three_in_line) = length (map YOLO_CLASSES three_in_line)" by simp
  have R: "rect 1 (map YOLO_CLASSES three_in_line)"
    by (simp add: rect_def three_in_line_def row_def)
  have J1: "1 < length (map YOLO_CLASSES three_in_line)" by (simp add: three_in_line_def)
  have J2: "2 < length (map YOLO_CLASSES three_in_line)" by (simp add: three_in_line_def)
  have O1: "iou_gt (bbox_iou (map to_bbox three_in_line ! 0) (map to_bbox three_in_line ! 1)) (1/2)"
    by (simp add: three_in_line_def row_def to_bbox_def unionArea_def bboxArea_def interArea_def
        clamp_min_def bbox_iou_def iou_gt_def Let_def)
  have O2: "iou_gt (bbox_iou (map to_bbox three_in_line ! 0) (map to_bbox three_in_line ! 2)) (1/2)"
    by (simp add: three_in_line_def row_def to_bbox_def unionArea_def bboxArea_def interArea_def
        clamp_min_def bbox_iou_def iou_gt_def Let_def)
  have S1: "map YOLO_CLASSES three_in_line ! 0 ! 0 < map YOLO_CLASSES three_in_line ! 1 ! 0"
    by (simp add: three_in_line_def row_def)
  have S2: "map YOLO_CLASSES three_in_line ! 2 ! 0 \<le> map YOLO_CLASSES three_in_line ! 0 ! 0"
    by (simp add: three_in_line_def row_def)
  have V: "nms_iter (map to_bbox three_in_line) (1/2) 0 (map YOLO_CLASSES three_in_line)
           = [[0], [9/10], [0]]"
    by code_simp
  have G: "map YOLO_CLASSES (greedy_nms_inplace three_in_line (1/2)) = [[0], [9/10], [0]]"
    by code_simp
  show ?thesis
    using nms_iter_snapshot[OF L R _ _ J1 _ J2 O1 O2 S1 S2] L R J1 J2 O1 O2 S1 S2 V G by simp
qed

section \<open>Claims about the whole call\<close>

lemma to_bbox_update: "to_bbox (d\<lparr>YOLO_CLASSES := p\<rparr>) = to_bbox d"
  by (simp add: to_bbox_def)

lemma is_tensor_loop_shape:
  assumes "is_tensor C preds"
  shows "length (nms_loop (map to_bbox preds) t (map YOLO_CLASSES preds)) = length preds"
    and "rect C (nms_loop (map to_bbox preds) t (map YOLO_CLASSES preds))"
  using nms_loop_shape[of "map to_bbox preds" "map YOLO_CLASSES preds" C t] assms
  by (simp_all add: is_tensor_def)

lemma greedy_nms_inplace_length:
  assumes "is_tensor C preds"
  shows "length (greedy_nms_inplace preds t) = length preds"
  using is_tensor_loop_shape(1)[OF assms, of t] by (simp add: greedy_nms_inplace_def Let_def)

lemma greedy_nms_inplace_nth:
  assumes "is_tensor C preds" "k < length preds"
  shows "greedy_nms_inplace preds t ! k =
     (preds ! k)\<lparr>YOLO_CLASSES := nms_loop (map to_bbox preds) t (map YOLO_CLASSES preds) ! k\<rparr>"
  using is_tensor_loop_shape(1)[OF assms(1), of t] assms(2)
  by (simp add: greedy_nms_inplace_def Let_def)

lemma greedy_nms_inplace_classes:
  assumes "is_tensor C preds"
  shows "map YOLO_CLASSES (greedy_nms_inplace preds t) = nms_loop (map to_bbox preds) t (map YOLO_CLASSES preds)"
proof (rule nth_equalityI)
  show "length (map YOLO_CLASSES (greedy_nms_inplace preds t)) = length (nms_loop (map to_bbox preds) t (map YOLO_CLASSES preds))"
    using greedy_nms_inplace_length[OF assms, of t] is_tensor_loop_shape(1)[OF assms, of t] by simp
next
  fix k assume "k < length (map YOLO_CLASSES (greedy_nms_inplace preds t))"
  then have k: "k < length preds" using greedy_nms_inplace_length[OF assms, of t] by simp
  then have "k < length (greedy_nms_inplace preds t)" using greedy_nms_inplace_length[OF assms, of t] by simp
  then show "map YOLO_CLASSES (greedy_nms_inplace preds t) ! k = nms_loop (map to_bbox preds) t (map YOLO_CLASSES preds) ! k"
    by (simp add: greedy_nms_inplace_nth[OF assms k])
qed

lemma greedy_nms_inplace_bboxes:
  assumes "is_tensor C preds"
  shows "map to_bbox (greedy_nms_inplace preds t) = map to_bbox preds"
proof (rule nth_equalityI)
  show "length (map to_bbox (greedy_nms_inplace preds t)) = length (map to_bbox preds)"
    using greedy_nms_inplace_length[OF assms, of t] by simp
next
  fix k assume "k < length (map to_bbox (greedy_nms_inplace preds t))"
  then have k: "k < length preds" using greedy_nms_inplace_length[OF assms, of t] by simp
  then have "k < length (greedy_nms_inplace preds t)" using greedy_nms_inplace_length[OF assms, of t] by simp
  then show "map to_bbox (greedy_nms_inplace preds t) ! k = map to_bbox preds ! k"
    using k by (simp add: greedy_nms_inplace_nth[OF assms k] to_bbox_update)
qed

lemma greedy_nms_inplace_entry:
  assumes T: "is_tensor C preds" and k: "k < length preds" and c: "c < C"
  shows "YOLO_CLASSES (greedy_nms_inplace preds t ! k) ! c = YOLO_CLASSES (preds ! k) ! c
       \<or> YOLO_CLASSES (greedy_nms_inplace preds t ! k) ! c = 0"
proof -
  let ?P = "map YOLO_CLASSES preds"
  have R: "rect C ?P" using T by (simp add: is_tensor_def)
  have Z: "only_zeroed ?P (nms_loop (map to_bbox preds) t ?P)"
    using nms_loop_only_zeroed[of "map to_bbox preds" ?P C t] R by simp
  have "c < length (?P ! k)" using rect_nth[OF R, of k] k c by simp
  then show ?thesis
    using only_zeroedD[OF Z, of k c] k by (simp add: greedy_nms_inplace_nth[OF T k])
qed

text \<open>Claim C6. For every prediction buffer and every threshold, one call of
  \<open>greedy_nms_inplace\<close> leaves the shape of the buffer (the number of rows and the number
  of class scores of each row) and the fields \<open>tx\<close>, \<open>ty\<close>, \<open>tw\<close>, \<open>th\<close> (and the
  objectness) of every row unchanged; a class score is either what it was or 0.\<close>
theorem greedy_nms_inplace_frame:
  assumes "is_tensor C preds" and "k < length preds" and "c < C"
  shows "length (greedy_nms_inplace preds nms_thresh) = length preds
       \<and> length (YOLO_CLASSES (greedy_nms_inplace preds nms_thresh ! k)) = C
       \<and> YOLO_TX (greedy_nms_inplace preds nms_thresh ! k) = YOLO_TX (preds ! k)
       \<and> YOLO_TY (greedy_nms_inplace preds nms_thresh ! k) = YOLO_TY (preds ! k)
       \<and> YOLO_TW (greedy_nms_inplace preds nms_thresh ! k) = YOLO_TW (preds ! k)
       \<and> YOLO_TH (greedy_nms_inplace preds nms_thresh ! k) = YOLO_TH (preds ! k)
       \<and> YOLO_OBJ (greedy_nms_inplace preds nms_thresh ! k) = YOLO_OBJ (preds ! k)
       \<and> (YOLO_CLASSES (greedy_nms_inplace preds nms_thresh ! k) ! c = YOLO_CLASSES (preds ! k) ! c
          \<or> YOLO_CLASSES (greedy_nms_inplace preds nms_thresh ! k) ! c = 0)"
proof -
  have "length (YOLO_CLASSES (greedy_nms_inplace preds nms_thresh ! k)) = C"
    using rect_nth[OF is_tensor_loop_shape(2)[OF assms(1), of nms_thresh], of k]
      is_tensor_loop_shape(1)[OF assms(1), of nms_thresh] assms(2)
    by (simp add: greedy_nms_inplace_nth[OF assms(1,2)])
  then show ?thesis
    using greedy_nms_inplace_length[OF assms(1), of nms_thresh]
      greedy_nms_inplace_entry[OF assms, of nms_thresh]
    by (simp add: greedy_nms_inplace_nth[OF assms(1,2)])
qed

text \<open>The theorem at scenario B, box 1, class 1: the row keeps its box and its entry is
  replaced by 0.\<close>
theorem greedy_nms_inplace_frame_witness:
  "is_tensor 2 scenario_B \<and> 1 < length scenario_B \<and> (1::nat) < 2
   \<and> length (greedy_nms_inplace scenario_B (1/2)) = length scenario_B
   \<and> length (YOLO_CLASSES (greedy_nms_inplace scenario_B (1/2) ! 1)) = 2
   \<and> YOLO_TX (greedy_nms_inplace scenario_B (1/2) ! 1) = YOLO_TX (scenario_B ! 1)
   \<and> YOLO_TY (greedy_nms_inplace scenario_B (1/2) ! 1) = YOLO_TY (scenario_B ! 1)
   \<and> YOLO_TW (greedy_nms_inplace scenario_B (1/2) ! 1) = YOLO_TW (scenario_B ! 1)
   \<and> YOLO_TH (greedy_nms_inplace scenario_B (1/2) ! 1) = YOLO_TH (scenario_B ! 1)
   \<and> YOLO_CLASSES (scenario_B ! 1) ! 1 = 3/10
   \<and> YOLO_CLASSES (greedy_nms_inplace scenario_B (1/2) ! 1) ! 1 = 0"
proof -
  have T: "is_tensor 2 scenario_B" by (simp add: is_tensor_def rect_def scenario_B_def row_def)
  have K: "1 < length scenario_B" by (simp add: scenario_B_def)
  have G: "greedy_nms_inplace scenario_B (1/2)
           = [row 0 0 1 1 [9/10, 3/10], row (1/4) 0 1 1 [0, 0]]"
    by code_simp
  have S: "YOLO_CLASSES (scenario_B ! 1) ! 1 = 3/10" by (simp add: scenario_B_def row_def)
  have Z: "YOLO_CLASSES (greedy_nms_inplace scenario_B (1/2) ! 1) ! 1 = 0"
    unfolding G by (simp add: row_def)
  show ?thesis
    using greedy_nms_inplace_frame[OF T K, of 1 "1/2"] T K S Z by simp
qed

text \<open>Claim C4. For every prediction buffer, every box index and every class channel,
  the class score stored after one call of \<open>greedy_nms_inplace\<close> is less than or equal to
  the score stored before the call: the call never increases a class score, it only zeroes
  entries. The class scores of a prediction buffer are objectness times class probability,
  so none is negative; that is the input condition \<open>scores_nonneg\<close>.\<close>
theorem greedy_nms_inplace_monotonic:
  assumes "is_tensor C preds" and "scores_nonneg preds" and "k < length preds" and "c < C"
  shows "YOLO_CLASSES (greedy_nms_inplace preds nms_thresh ! k) ! c \<le> YOLO_CLASSES (preds ! k) ! c
       \<and> (YOLO_CLASSES (greedy_nms_inplace preds nms_thresh ! k) ! c = YOLO_CLASSES (preds ! k) ! c
          \<or> YOLO_CLASSES (greedy_nms_inplace preds nms_thresh ! k) ! c = 0)"
proof -
  let ?P = "map YOLO_CLASSES preds"
  have R: "rect C ?P" using assms(1) by (simp add: is_tensor_def)
  have "c < length (?P ! k)" using rect_nth[OF R, of k] assms(3,4) by simp
  then have "0 \<le> ?P ! k ! c" using nonneg_nth[of ?P k c] assms(2,3) by (simp add: scores_nonneg_def)
  then show ?thesis
    using greedy_nms_inplace_entry[OF assms(1,3,4), of nms_thresh] assms(3) by auto
qed

text \<open>The theorem at scenario B, box 1, class 0: the score 7/10 becomes 0.\<close>
theorem greedy_nms_inplace_monotonic_witness:
  "is_tensor 2 scenario_B \<and> scores_nonneg scenario_B \<and> 1 < length scenario_B \<and> (0::nat) < 2
   \<and> YOLO_CLASSES (greedy_nms_inplace scenario_B (1/2) ! 1) ! 0
       \<le> YOLO_CLASSES (scenario_B ! 1) ! 0
   \<and> YOLO_CLASSES (scenario_B ! 1) ! 0 = 7/10
   \<and> YOLO_CLASSES (greedy_nms_inplace scenario_B (1/2) ! 1) ! 0 = 0"
proof -
  have T: "is_tensor 2 scenario_B" by (simp add: is_tensor_def rect_def scenario_B_def row_def)
  have N: "scores_nonneg scenario_B"
    by (simp add: scores_nonneg_def nonneg_def scenario_B_def row_def)
  have K: "1 < length scenario_B" by (simp add: scenario_B_def)
  have S: "YOLO_CLASSES (scenario_B ! 1) ! 0 = 7/10" by (simp add: scenario_B_def row_def)
  have G: "greedy_nms_inplace scenario_B (1/2)
           = [row 0 0 1 1 [9/10, 3/10], row (1/4) 0 1 1 [0, 0]]"
    by code_simp
  have Z: "YOLO_CLASSES (greedy_nms_inplace scenario_B (1/2) ! 1) ! 0 = 0"
    unfolding G by (simp add: row_def)
  show ?thesis
    using greedy_nms_inplace_monotonic[OF T N K, of 0 "1/2"] T N K S Z by simp
qed

text \<open>Claim C3. For every prediction buffer and every threshold, running
  \<open>greedy_nms_inplace\<close> twice in succession with the same threshold leaves the buffer in
  exactly the state produced by running it once. The class scores of a prediction buffer
  are objectness times class probability, so none is negative and 0 is the lowest value a
  score can take; that is the input condition \<open>scores_nonneg\<close>.\<close>
theorem greedy_nms_inplace_idempotent:
  assumes T: "is_tensor C preds" and N: "scores_nonneg preds"
  shows "greedy_nms_inplace (greedy_nms_inplace preds nms_thresh) nms_thresh
         = greedy_nms_inplace preds nms_thresh"
proof -
  let ?P = "map YOLO_CLASSES preds"
  let ?B = "map to_bbox preds"
  let ?Q = "nms_loop ?B nms_thresh ?P"
  let ?out = "greedy_nms_inplace preds nms_thresh"
  have R: "rect C ?P" using T by (simp add: is_tensor_def)
  have NP: "nonneg ?P" using N by (simp add: scores_nonneg_def)
  have idem: "nms_loop ?B nms_thresh ?Q = ?Q"
    using nms_loop_idem[of ?B ?P C nms_thresh] R NP by simp
  have cl: "map YOLO_CLASSES ?out = ?Q" by (rule greedy_nms_inplace_classes[OF T])
  have bb: "map to_bbox ?out = ?B" by (rule greedy_nms_inplace_bboxes[OF T])
  have len: "length ?out = length preds" by (rule greedy_nms_inplace_length[OF T])
  have lenQ: "length ?Q = length preds" by (rule is_tensor_loop_shape(1)[OF T])
  have "greedy_nms_inplace ?out nms_thresh = map2 (\<lambda>d p. d\<lparr>YOLO_CLASSES := p\<rparr>) ?out ?Q"
    unfolding greedy_nms_inplace_def[of ?out] Let_def cl bb idem ..
  also have "\<dots> = ?out"
  proof (rule nth_equalityI)
    show "length (map2 (\<lambda>d p. d\<lparr>YOLO_CLASSES := p\<rparr>) ?out ?Q) = length ?out" using len lenQ by simp
  next
    fix k assume "k < length (map2 (\<lambda>d p. d\<lparr>YOLO_CLASSES := p\<rparr>) ?out ?Q)"
    then have k: "k < length preds" using len lenQ by simp
    then show "map2 (\<lambda>d p. d\<lparr>YOLO_CLASSES := p\<rparr>) ?out ?Q ! k = ?out ! k"
      using len lenQ by (simp add: greedy_nms_inplace_nth[OF T k])
  qed
  finally show ?thesis .
qed

text \<open>The theorem at scenario D, where the call zeroes the scores of boxes 1 and 2.\<close>
theorem greedy_nms_inplace_idempotent_witness:
  "is_tensor 1 scenario_D \<and> scores_nonneg scenario_D
   \<and> greedy_nms_inplace (greedy_nms_inplace scenario_D (1/2)) (1/2)
       = greedy_nms_inplace scenario_D (1/2)
   \<and> map YOLO_CLASSES (greedy_nms_inplace scenario_D (1/2)) = [[9/10], [0], [0]]"
proof -
  have T: "is_tensor 1 scenario_D" by (simp add: is_tensor_def rect_def scenario_D_def row_def)
  have N: "scores_nonneg scenario_D"
    by (simp add: scores_nonneg_def nonneg_def scenario_D_def row_def)
  have G: "map YOLO_CLASSES (greedy_nms_inplace scenario_D (1/2)) = [[9/10], [0], [0]]"
    by code_simp
  show ?thesis
    using greedy_nms_inplace_idempotent[OF T N, of "1/2"] T N G by simp
qed

section \<open>Claims about the dispatcher\<close>


text \<open>Claim C7. For every prediction buffer and every layer whose kind is not the greedy
  one, \<open>run_nms_inplace\<close> returns with the buffer unchanged; the function has no error
  branch.\<close>
theorem run_nms_inplace_other_kind:
  "nms_kind layer \<noteq> GREEDY_NMS \<Longrightarrow> run_nms_inplace NMS_THRESHOLD GREEDY_NMS preds layer = preds"
  by (simp add: run_nms_inplace_def)

text \<open>The theorem at a layer of another kind, on a buffer that greedy suppression would
  change.\<close>
theorem run_nms_inplace_other_kind_witness:
  "nms_kind \<lparr>nms_kind = ''diounms'', nms_threshold = 1/2\<rparr> \<noteq> ''greedynms''
   \<and> run_nms_inplace (1/2) ''greedynms'' same_pair \<lparr>nms_kind = ''diounms'', nms_threshold = 1/2\<rparr> = same_pair
   \<and> greedy_nms_inplace same_pair (1/2) \<noteq> same_pair"
proof -
  have g: "greedy_nms_inplace same_pair (1/2) = [row 0 0 1 1 [9/10], row 0 0 1 1 [0]]"
    by code_simp
  have "greedy_nms_inplace same_pair (1/2) \<noteq> same_pair"
    unfolding g by (simp add: same_pair_def row_def)
  then show ?thesis
    using run_nms_inplace_other_kind[of "\<lparr>nms_kind = ''diounms'', nms_threshold = 1/2\<rparr>" "''greedynms''" "1/2" same_pair]
    by simp
qed

end
